theory Spec2Isabelle
  imports Complex_Main
begin

section \<open>Data model\<close>

text \<open>
  A qubit of the chain is \<^verbatim>\<open>cirq.LineQubit(x)\<close>: an immutable value that carries its
  position. Python integers are unbounded, hence \<^typ>\<open>int\<close>.
\<close>

datatype qubit = LineQubit int

text \<open>
  The six kinds of operation the program creates (\<^verbatim>\<open>cirq.reset\<close>, \<^verbatim>\<open>cirq.CNOT\<close>,
  \<^verbatim>\<open>cirq.H\<close>, \<^verbatim>\<open>cirq.S\<close>, \<^verbatim>\<open>cirq.T\<close>, \<^verbatim>\<open>cirq.measure\<close>), as the tagged variant
  of the specification's data model.
\<close>

datatype operation =
    Reset qubit
  | CNOT qubit qubit
  | H qubit
  | S qubit
  | T qubit
  | Measure qubit

text \<open>
  Modelled from the spec: the class \<^verbatim>\<open>cirq.Circuit\<close> and its method \<^verbatim>\<open>append\<close> belong to
  the cirq library and are not part of the source file. The specification's data model
  describes a Circuit as an ordered sequence of Operations, so a circuit is the list of the
  operations handed to \<^verbatim>\<open>append\<close>, in the order of the calls. How the library packs
  operations into moments is outside this model.
\<close>

type_synonym circuit = "operation list"

definition Circuit :: circuit where
  "Circuit = []"

definition circuit_append :: "circuit \<Rightarrow> operation list \<Rightarrow> circuit" where
  "circuit_append circuit ops = circuit @ ops"

text \<open>
  The exceptions of the program: \<^verbatim>\<open>IndexError\<close> is what Python raises for a subscript out
  of range; \<open>SimulatorError\<close> stands for any exception of the external simulator.
\<close>

datatype error = IndexError | SimulatorError

text \<open>\<^verbatim>\<open>xs[i]\<close> for a list and an index that is not negative.\<close>

definition getitem :: "'a list \<Rightarrow> nat \<Rightarrow> error + 'a" where
  "getitem xs i = (if i < length xs then Inr (xs ! i) else Inl IndexError)"

section \<open>The builder\<close>

text \<open>
  The generator \<^verbatim>\<open>gate(q) for q, p in zip(qubits, ps) if p >= 0.5\<close>. Python's \<^verbatim>\<open>zip\<close>
  stops at the end of the shorter argument, as \<^const>\<open>zip\<close> does. The entries are Python
  floats that are only ever compared with \<^verbatim>\<open>0.5\<close>; they are modelled as reals.
\<close>

definition threshold_ops :: "(qubit \<Rightarrow> operation) \<Rightarrow> qubit list \<Rightarrow> real list \<Rightarrow> operation list" where
  "threshold_ops gate qubits ps = [gate q. (q, p) \<leftarrow> zip qubits ps, p \<ge> 0.5]"

text \<open>
  The loop \<^verbatim>\<open>for qi, q in enumerate(qubits[:-1])\<close>, over the remaining pairs of the
  enumeration and with the circuit built so far. The subscripts \<^verbatim>\<open>params[1]\<close>,
  \<^verbatim>\<open>params[1][qi]\<close> and \<^verbatim>\<open>qubits[qi+1]\<close> are evaluated in each iteration, in this order,
  the last one only when the threshold test succeeds.
\<close>

fun cnot_loop :: "qubit list \<Rightarrow> real list list \<Rightarrow> (nat \<times> qubit) list \<Rightarrow> circuit \<Rightarrow> error + circuit" where
  "cnot_loop qubits params [] circuit = Inr circuit"
| "cnot_loop qubits params ((qi, q) # rest) circuit =
     (case getitem params 1 of
        Inl e \<Rightarrow> Inl e
      | Inr params1 \<Rightarrow>
          (case getitem params1 qi of
             Inl e \<Rightarrow> Inl e
           | Inr p \<Rightarrow>
               if p \<ge> 0.5 then
                 (case getitem qubits (qi + 1) of
                    Inl e \<Rightarrow> Inl e
                  | Inr q' \<Rightarrow> cnot_loop qubits params rest (circuit_append circuit [CNOT q q']))
               else cnot_loop qubits params rest circuit))"

text \<open>
  \<^verbatim>\<open>build_circuit(qubits, params)\<close>. \<^verbatim>\<open>qubits[:-1]\<close> is \<^term>\<open>butlast qubits\<close> (empty for
  an empty list) and \<^verbatim>\<open>enumerate\<close> counts from 0.
\<close>

definition build_circuit :: "qubit list \<Rightarrow> real list list \<Rightarrow> error + circuit" where
  "build_circuit qubits params =
     (let circuit = Circuit in
      (case getitem params 0 of Inl e \<Rightarrow> Inl e | Inr params0 \<Rightarrow>
      (let circuit = circuit_append circuit (threshold_ops Reset qubits params0) in
      (case cnot_loop qubits params (enumerate 0 (butlast qubits)) circuit of Inl e \<Rightarrow> Inl e | Inr circuit \<Rightarrow>
      (case getitem params 2 of Inl e \<Rightarrow> Inl e | Inr params2 \<Rightarrow>
      (let circuit = circuit_append circuit (threshold_ops H qubits params2) in
      (case getitem params 3 of Inl e \<Rightarrow> Inl e | Inr params3 \<Rightarrow>
      (let circuit = circuit_append circuit (threshold_ops S qubits params3) in
      (case getitem params 4 of Inl e \<Rightarrow> Inl e | Inr params4 \<Rightarrow>
      (let circuit = circuit_append circuit (threshold_ops T qubits params4) in
      (case getitem params 5 of Inl e \<Rightarrow> Inl e | Inr params5 \<Rightarrow>
      (let circuit = circuit_append circuit (threshold_ops Measure qubits params5) in
      Inr circuit))))))))))))"

section \<open>The sampler\<close>

text \<open>
  The random source is the process-wide generator behind \<^verbatim>\<open>random.random()\<close>, which is
  library code. It is a parameter of the model: the stream of the values that the
  successive calls return. A call returns the head of the stream and leaves the rest.
\<close>

type_synonym rng = "nat \<Rightarrow> real"

definition random_random :: "rng \<Rightarrow> real \<times> rng" where
  "random_random g = (g 0, \<lambda>k. g (Suc k))"

text \<open>\<^verbatim>\<open>range(n)\<close>: empty when \<open>n\<close> is not positive.\<close>

definition py_range :: "int \<Rightarrow> int list" where
  "py_range n = map int [0..<nat n]"

text \<open>The comprehension \<^verbatim>\<open>[random.random() for x in xs]\<close>: one call per element, in order.\<close>

fun random_list :: "int list \<Rightarrow> rng \<Rightarrow> real list \<times> rng" where
  "random_list [] g = ([], g)"
| "random_list (x # xs) g =
     (case random_random g of (r, g1) \<Rightarrow>
        (case random_list xs g1 of (rs, g2) \<Rightarrow> (r # rs, g2)))"

text \<open>\<^verbatim>\<open>random_params(nqubits)\<close>: six comprehensions, one after the other, on the same source.\<close>

definition random_params :: "int \<Rightarrow> rng \<Rightarrow> real list list \<times> rng" where
  "random_params nqubits g0 =
     (case random_list (py_range nqubits) g0 of (reset_state, g1) \<Rightarrow>
     (case random_list (py_range nqubits) g1 of (apply_CNOT, g2) \<Rightarrow>
     (case random_list (py_range nqubits) g2 of (apply_H, g3) \<Rightarrow>
     (case random_list (py_range nqubits) g3 of (apply_S, g4) \<Rightarrow>
     (case random_list (py_range nqubits) g4 of (apply_T, g5) \<Rightarrow>
     (case random_list (py_range nqubits) g5 of (do_measurement, g6) \<Rightarrow>
     (let output = [reset_state, apply_CNOT, apply_H, apply_S, apply_T, do_measurement]
      in (output, g6))))))))"

section \<open>The driver\<close>

definition NQUBITS :: int where "NQUBITS = 4"
definition NSTEPS :: int where "NSTEPS = 1"

text \<open>
  What a run of \<^verbatim>\<open>main\<close> does, as the sequence of its calls and prints: sampling a
  matrix, building a circuit, printing the timestep and the circuit, calling
  \<^verbatim>\<open>simulator.simulate\<close>, printing its result. (The line of asterisks printed before the
  timestep carries no data and has no event.)
\<close>

datatype 'r event =
    Sampled "real list list"
  | Built circuit
  | Printed_timestep int
  | Printed_circuit circuit
  | Simulated circuit "qubit list"
  | Printed_result 'r

text \<open>
  The body of \<^verbatim>\<open>for timestep in range(NSTEPS)\<close>, over the timesteps still to run. The
  simulator is external: its method is the parameter \<open>simulate\<close>, which takes and returns
  the simulator's own state and either fails or yields a result. An exception of the
  builder or of the simulator ends the run.
\<close>

fun main_loop ::
  "('s \<Rightarrow> circuit \<Rightarrow> qubit list \<Rightarrow> (error + 'r) \<times> 's) \<Rightarrow> qubit list \<Rightarrow> int \<Rightarrow> int list
     \<Rightarrow> rng \<Rightarrow> 's \<Rightarrow> 'r event list \<Rightarrow> error option \<times> 'r event list \<times> rng \<times> 's" where
  "main_loop simulate qubits nqubits [] g simulator trace = (None, trace, g, simulator)"
| "main_loop simulate qubits nqubits (timestep # rest) g simulator trace =
     (case random_params nqubits g of (params, g') \<Rightarrow>
       (case build_circuit qubits params of
          Inl e \<Rightarrow> (Some e, trace @ [Sampled params], g', simulator)
        | Inr circuit \<Rightarrow>
           (case simulate simulator circuit qubits of
              (Inl e, simulator') \<Rightarrow>
                (Some e, trace @ [Sampled params, Built circuit, Printed_timestep timestep,
                   Printed_circuit circuit, Simulated circuit qubits], g', simulator')
            | (Inr result, simulator') \<Rightarrow>
                main_loop simulate qubits nqubits rest g' simulator'
                  (trace @ [Sampled params, Built circuit, Printed_timestep timestep,
                     Printed_circuit circuit, Simulated circuit qubits, Printed_result result]))))"

text \<open>
  \<^verbatim>\<open>main(nsteps, nqubits)\<close>. The parameter \<open>nsteps\<close> is not mentioned in the body: the loop
  runs over \<^verbatim>\<open>range(NSTEPS)\<close>, the module constant.
\<close>

definition main ::
  "('s \<Rightarrow> circuit \<Rightarrow> qubit list \<Rightarrow> (error + 'r) \<times> 's) \<Rightarrow> 's \<Rightarrow> int \<Rightarrow> int \<Rightarrow> rng
     \<Rightarrow> error option \<times> 'r event list \<times> rng \<times> 's" where
  "main simulate simulator nsteps nqubits g =
     (let qubits = map LineQubit (py_range nqubits) in
      main_loop simulate qubits nqubits (py_range NSTEPS) g simulator [])"

text \<open>The iterations of a run: how often it sampled, and how often it called the simulator.\<close>

fun is_Sampled :: "'r event \<Rightarrow> bool" where
  "is_Sampled (Sampled ps) = True"
| "is_Sampled e = False"

fun is_Simulated :: "'r event \<Rightarrow> bool" where
  "is_Simulated (Simulated c qs) = True"
| "is_Simulated e = False"

definition iterations :: "error option \<times> 'r event list \<times> rng \<times> 's \<Rightarrow> nat" where
  "iterations run = length (filter is_Sampled (fst (snd run)))"

definition simulations :: "error option \<times> 'r event list \<times> rng \<times> 's \<Rightarrow> nat" where
  "simulations run = length (filter is_Simulated (fst (snd run)))"

section \<open>The builder on a store\<close>

text \<open>
  Python passes the qubit list and the parameter lists by reference, and a circuit is an
  object that \<^verbatim>\<open>append\<close> changes in place. To speak about what a call changes, the builder
  is given a second time over an explicit store: a list of objects, an address being a
  position in it. Qubits and operations are immutable values and stay inside the objects.
\<close>

type_synonym addr = nat

datatype pyobj =
    Qubit_list "qubit list"
  | Float_list "real list"
  | Ref_list "addr list"
  | Circuit_obj circuit

type_synonym store = "pyobj list"

text \<open>
  An address that holds no object of the kind an operation needs does not arise from
  arguments of the builder's type; the model answers \<open>TypeError\<close> there. \<open>Raised\<close> wraps the
  exceptions of the program.
\<close>

datatype fault = Raised error | TypeError

definition load_qubits :: "store \<Rightarrow> addr \<Rightarrow> fault + qubit list" where
  "load_qubits s a =
     (if a < length s then (case s ! a of Qubit_list qs \<Rightarrow> Inr qs | _ \<Rightarrow> Inl TypeError)
      else Inl TypeError)"

definition load_floats :: "store \<Rightarrow> addr \<Rightarrow> fault + real list" where
  "load_floats s a =
     (if a < length s then (case s ! a of Float_list ps \<Rightarrow> Inr ps | _ \<Rightarrow> Inl TypeError)
      else Inl TypeError)"

definition load_refs :: "store \<Rightarrow> addr \<Rightarrow> fault + addr list" where
  "load_refs s a =
     (if a < length s then (case s ! a of Ref_list rs \<Rightarrow> Inr rs | _ \<Rightarrow> Inl TypeError)
      else Inl TypeError)"

definition load_circuit :: "store \<Rightarrow> addr \<Rightarrow> fault + circuit" where
  "load_circuit s a =
     (if a < length s then (case s ! a of Circuit_obj c \<Rightarrow> Inr c | _ \<Rightarrow> Inl TypeError)
      else Inl TypeError)"

definition getitem_st :: "'a list \<Rightarrow> nat \<Rightarrow> fault + 'a" where
  "getitem_st xs i = (case getitem xs i of Inl e \<Rightarrow> Inl (Raised e) | Inr x \<Rightarrow> Inr x)"

text \<open>\<^verbatim>\<open>params[k]\<close>, read as a list of floats.\<close>

definition params_row :: "store \<Rightarrow> addr \<Rightarrow> nat \<Rightarrow> fault + real list" where
  "params_row s params k =
     (case load_refs s params of
        Inl e \<Rightarrow> Inl e
      | Inr rows \<Rightarrow> (case getitem_st rows k of Inl e \<Rightarrow> Inl e | Inr a \<Rightarrow> load_floats s a))"

text \<open>\<^verbatim>\<open>cirq.Circuit()\<close> allocates a new object; \<^verbatim>\<open>circuit.append(ops)\<close> updates it in place.\<close>

definition new_circuit :: "store \<Rightarrow> addr \<times> store" where
  "new_circuit s = (length s, s @ [Circuit_obj Circuit])"

definition append_st :: "addr \<Rightarrow> operation list \<Rightarrow> store \<Rightarrow> store" where
  "append_st c ops s =
     (case load_circuit s c of
        Inr circuit \<Rightarrow> s[c := Circuit_obj (circuit_append circuit ops)]
      | Inl e \<Rightarrow> s)"

text \<open>One statement \<^verbatim>\<open>circuit.append(gate(q) for q, p in zip(qubits, params[k]) if p >= 0.5)\<close>.\<close>

definition phase_st ::
  "(qubit \<Rightarrow> operation) \<Rightarrow> addr \<Rightarrow> addr \<Rightarrow> nat \<Rightarrow> addr \<Rightarrow> store \<Rightarrow> fault option \<times> store" where
  "phase_st gate qubits params k c s =
     (case params_row s params k of
        Inl e \<Rightarrow> (Some e, s)
      | Inr ps \<Rightarrow>
          (case load_qubits s qubits of
             Inl e \<Rightarrow> (Some e, s)
           | Inr qs \<Rightarrow> (None, append_st c (threshold_ops gate qs ps) s)))"

text \<open>The CNOT loop; every subscript reads the store as it is at that moment.\<close>

fun cnot_loop_st ::
  "addr \<Rightarrow> addr \<Rightarrow> (nat \<times> qubit) list \<Rightarrow> addr \<Rightarrow> store \<Rightarrow> fault option \<times> store" where
  "cnot_loop_st qubits params [] c s = (None, s)"
| "cnot_loop_st qubits params ((qi, q) # rest) c s =
     (case params_row s params 1 of
        Inl e \<Rightarrow> (Some e, s)
      | Inr params1 \<Rightarrow>
          (case getitem_st params1 qi of
             Inl e \<Rightarrow> (Some e, s)
           | Inr p \<Rightarrow>
               if p \<ge> 0.5 then
                 (case load_qubits s qubits of
                    Inl e \<Rightarrow> (Some e, s)
                  | Inr qs \<Rightarrow>
                      (case getitem_st qs (qi + 1) of
                         Inl e \<Rightarrow> (Some e, s)
                       | Inr q' \<Rightarrow> cnot_loop_st qubits params rest c (append_st c [CNOT q q'] s)))
               else cnot_loop_st qubits params rest c s))"

definition build_circuit_st :: "addr \<Rightarrow> addr \<Rightarrow> store \<Rightarrow> (fault + addr) \<times> store" where
  "build_circuit_st qubits params s0 =
     (case new_circuit s0 of (circuit, s1) \<Rightarrow>
     (case phase_st Reset qubits params 0 circuit s1 of (Some e, s2) \<Rightarrow> (Inl e, s2) | (None, s2) \<Rightarrow>
     (case load_qubits s2 qubits of Inl e \<Rightarrow> (Inl e, s2) | Inr qs \<Rightarrow>
     (case cnot_loop_st qubits params (enumerate 0 (butlast qs)) circuit s2 of
        (Some e, s3) \<Rightarrow> (Inl e, s3) | (None, s3) \<Rightarrow>
     (case phase_st H qubits params 2 circuit s3 of (Some e, s4) \<Rightarrow> (Inl e, s4) | (None, s4) \<Rightarrow>
     (case phase_st S qubits params 3 circuit s4 of (Some e, s5) \<Rightarrow> (Inl e, s5) | (None, s5) \<Rightarrow>
     (case phase_st T qubits params 4 circuit s5 of (Some e, s6) \<Rightarrow> (Inl e, s6) | (None, s6) \<Rightarrow>
     (case phase_st Measure qubits params 5 circuit s6 of (Some e, s7) \<Rightarrow> (Inl e, s7) | (None, s7) \<Rightarrow>
     (Inr circuit, s7)))))))))"

text \<open>
  The values of the two arguments in a store: the qubit list at the first address and the
  rows that the list at the second address refers to; \<open>None\<close> when the addresses do not hold
  a qubit list and a list of lists of floats.
\<close>

definition read_args :: "store \<Rightarrow> addr \<Rightarrow> addr \<Rightarrow> (qubit list \<times> real list list) option" where
  "read_args s qubits params =
     (case load_qubits s qubits of
        Inl e \<Rightarrow> None
      | Inr qs \<Rightarrow>
          (case load_refs s params of
             Inl e \<Rightarrow> None
           | Inr rows \<Rightarrow>
               if list_all (\<lambda>a. \<not> isl (load_floats s a)) rows
               then Some (qs, map (\<lambda>a. projr (load_floats s a)) rows)
               else None))"

text \<open>The result of a call: the exception, or the content of the circuit it returns.\<close>

definition outcome :: "(fault + addr) \<times> store \<Rightarrow> fault + circuit" where
  "outcome r = (case r of (Inl e, s) \<Rightarrow> Inl e | (Inr c, s) \<Rightarrow> load_circuit s c)"

text \<open>The exceptions of the list model, as outcomes of the store model.\<close>

definition lift_error :: "error + 'a \<Rightarrow> fault + 'a" where
  "lift_error r = (case r of Inl e \<Rightarrow> Inl (Raised e) | Inr x \<Rightarrow> Inr x)"

section \<open>Vocabulary of the statements\<close>

text \<open>
  The phases of the specification, numbered as the rows of the parameter matrix:
  Reset 0, CNOT 1, H 2, S 3, T 4, Measure 5.
\<close>

fun phase :: "operation \<Rightarrow> nat" where
  "phase (Reset q) = 0"
| "phase (CNOT q r) = 1"
| "phase (H q) = 2"
| "phase (S q) = 3"
| "phase (T q) = 4"
| "phase (Measure q) = 5"

text \<open>The positions below \<open>n\<close> whose entry of the row \<open>ps\<close> reaches the threshold, ascending.\<close>

definition selected :: "real list \<Rightarrow> nat \<Rightarrow> nat list" where
  "selected ps n = filter (\<lambda>i. ps ! i \<ge> 0.5) [0..<n]"

text \<open>
  The operation of the qubit at position \<open>i\<close> in phase \<open>p\<close>, and the number of positions
  that have one: in the CNOT phase the last qubit has no right neighbour and therefore no
  operation.
\<close>

definition phase_op :: "nat \<Rightarrow> qubit list \<Rightarrow> nat \<Rightarrow> operation" where
  "phase_op p qubits i =
     (if p = 0 then Reset (qubits ! i)
      else if p = 1 then CNOT (qubits ! i) (qubits ! Suc i)
      else if p = 2 then H (qubits ! i)
      else if p = 3 then S (qubits ! i)
      else if p = 4 then T (qubits ! i)
      else Measure (qubits ! i))"

definition eligible :: "nat \<Rightarrow> nat \<Rightarrow> nat" where
  "eligible p n = (if p = 1 then n - 1 else n)"

section \<open>The builder, phase by phase\<close>

lemma zip_nth_upt:
  "zip xs ys = map (\<lambda>i. (xs ! i, ys ! i)) [0..<min (length xs) (length ys)]"
  by (rule nth_equalityI) simp_all

lemma threshold_ops_selected:
  "threshold_ops gate qubits ps
     = map (\<lambda>i. gate (qubits ! i)) (selected ps (min (length qubits) (length ps)))"
proof -
  have "threshold_ops gate qubits ps
      = map gate (map fst (filter (\<lambda>(q, p). p \<ge> 0.5) (zip qubits ps)))"
    unfolding threshold_ops_def
    by (induction qubits ps rule: list_induct2') auto
  also have "\<dots> = map (\<lambda>i. gate (qubits ! i)) (selected ps (min (length qubits) (length ps)))"
    by (subst zip_nth_upt) (simp add: selected_def filter_map comp_def)
  finally show ?thesis .
qed

lemma cnot_loop_indices:
  assumes "1 < length params" and "\<forall>i\<in>set js. Suc i < length qubits"
  shows "cnot_loop qubits params (map (\<lambda>i. (i, qubits ! i)) js) c =
          (if \<forall>i\<in>set js. i < length (params ! 1)
           then Inr (c @ map (\<lambda>i. CNOT (qubits ! i) (qubits ! Suc i))
                         (filter (\<lambda>i. params ! 1 ! i \<ge> 0.5) js))
           else Inl IndexError)"
  using assms
proof (induction js arbitrary: c)
  case Nil
  then show ?case by simp
next
  case (Cons j js)
  then show ?case
    by (auto simp: getitem_def circuit_append_def)
qed

lemma enumerate_butlast:
  "enumerate 0 (butlast qubits) = map (\<lambda>i. (i, qubits ! i)) [0..<length qubits - 1]"
  by (rule nth_equalityI) (simp_all add: nth_enumerate_eq nth_butlast)

lemma ball_upt_less: "(\<forall>i\<in>set [0..<m]. i < k) \<longleftrightarrow> m \<le> (k::nat)"
proof
  assume all: "\<forall>i\<in>set [0..<m]. i < k"
  show "m \<le> k"
  proof (rule ccontr)
    assume "\<not> m \<le> k"
    then have "k \<in> set [0..<m]" by simp
    with all have "k < k" by blast
    then show False by simp
  qed
next
  assume "m \<le> k"
  then show "\<forall>i\<in>set [0..<m]. i < k" by auto
qed

lemma cnot_loop_enumerate:
  assumes "1 < length params"
  shows "cnot_loop qubits params (enumerate 0 (butlast qubits)) c =
          (if length qubits - 1 \<le> length (params ! 1)
           then Inr (c @ map (\<lambda>i. CNOT (qubits ! i) (qubits ! Suc i))
                         (selected (params ! 1) (length qubits - 1)))
           else Inl IndexError)"
proof -
  have "\<forall>i\<in>set [0..<length qubits - 1]. Suc i < length qubits"
    by auto
  from cnot_loop_indices [OF assms this, of c] show ?thesis
    unfolding enumerate_butlast selected_def ball_upt_less .
qed

lemma build_circuit_eq:
  assumes "6 \<le> length params"
  shows "build_circuit qubits params =
          (if length qubits - 1 \<le> length (params ! 1)
           then Inr (threshold_ops Reset qubits (params ! 0)
                  @ map (\<lambda>i. CNOT (qubits ! i) (qubits ! Suc i)) (selected (params ! 1) (length qubits - 1))
                  @ threshold_ops H qubits (params ! 2)
                  @ threshold_ops S qubits (params ! 3)
                  @ threshold_ops T qubits (params ! 4)
                  @ threshold_ops Measure qubits (params ! 5))
           else Inl IndexError)"
proof -
  from assms have len: "0 < length params" "1 < length params" "2 < length params"
    "3 < length params" "4 < length params" "5 < length params"
    by auto
  show ?thesis
    unfolding build_circuit_def Let_def getitem_def Circuit_def circuit_append_def
    using len by (simp add: cnot_loop_enumerate [OF len(2)])
qed

lemma sum_case_Inr:
  "(case x of Inl e \<Rightarrow> Inl e | Inr y \<Rightarrow> f y) = Inr c \<Longrightarrow> \<exists>y. x = Inr y \<and> f y = Inr c"
  by (cases x) simp_all

lemma getitem_Inr: "getitem xs k = Inr y \<Longrightarrow> k < length xs"
  by (simp add: getitem_def split: if_splits)

lemma build_circuit_Inr_length:
  assumes "build_circuit qubits params = Inr c"
  shows "6 \<le> length params"
proof -
  from assms have "\<exists>y. getitem params 5 = Inr y"
    unfolding build_circuit_def Let_def
    by (blast dest!: sum_case_Inr)
  then show ?thesis
    by (auto dest: getitem_Inr)
qed

lemma sorted_map_const: "sorted (map (\<lambda>i. k::nat) xs)"
  by (induction xs) auto

lemma sorted_wrt_selected: "sorted_wrt (<) (selected ps n)"
  by (simp add: selected_def sorted_wrt_filter)

lemma set_selected: "set (selected ps n) = {i. i < n \<and> ps ! i \<ge> 0.5}"
  by (auto simp: selected_def)

lemma build_circuit_matching:
  assumes "length params = 6" and "\<forall>ps\<in>set params. length ps = length qubits"
  shows "build_circuit qubits params =
           Inr (map (\<lambda>i. Reset (qubits ! i)) (selected (params ! 0) (length qubits))
              @ map (\<lambda>i. CNOT (qubits ! i) (qubits ! Suc i)) (selected (params ! 1) (length qubits - 1))
              @ map (\<lambda>i. H (qubits ! i)) (selected (params ! 2) (length qubits))
              @ map (\<lambda>i. S (qubits ! i)) (selected (params ! 3) (length qubits))
              @ map (\<lambda>i. T (qubits ! i)) (selected (params ! 4) (length qubits))
              @ map (\<lambda>i. Measure (qubits ! i)) (selected (params ! 5) (length qubits)))"
proof -
  have len: "length (params ! k) = length qubits" if "k < 6" for k
    using assms that by simp
  show ?thesis
    using assms(1) by (simp add: build_circuit_eq threshold_ops_selected len)
qed

section \<open>Properties of the builder\<close>

text \<open>
  Claim C1. For every qubit sequence and every parameter matrix of six rows whose lengths
  all equal the number of qubits, the builder returns a circuit that lists its operations
  grouped in the phase order Reset, CNOT, H, S, T, Measure, and within each phase by
  strictly ascending position in the qubit sequence: the circuit is the concatenation of
  six blocks, one per phase in this order, each block running over a strictly ascending
  list of positions, so no operation of a later phase stands before one of an earlier
  phase.
\<close>

theorem build_circuit_phase_order:
  assumes "length params = 6" and "\<forall>ps\<in>set params. length ps = length qubits"
  shows "\<exists>c i0 i1 i2 i3 i4 i5.
           build_circuit qubits params = Inr c
         \<and> c = map (\<lambda>i. Reset (qubits ! i)) i0
             @ map (\<lambda>i. CNOT (qubits ! i) (qubits ! Suc i)) i1
             @ map (\<lambda>i. H (qubits ! i)) i2
             @ map (\<lambda>i. S (qubits ! i)) i3
             @ map (\<lambda>i. T (qubits ! i)) i4
             @ map (\<lambda>i. Measure (qubits ! i)) i5
         \<and> sorted_wrt (<) i0 \<and> sorted_wrt (<) i1 \<and> sorted_wrt (<) i2
         \<and> sorted_wrt (<) i3 \<and> sorted_wrt (<) i4 \<and> sorted_wrt (<) i5
         \<and> set i0 \<subseteq> {0..<length qubits} \<and> set i1 \<subseteq> {0..<length qubits - 1}
         \<and> set i2 \<subseteq> {0..<length qubits} \<and> set i3 \<subseteq> {0..<length qubits}
         \<and> set i4 \<subseteq> {0..<length qubits} \<and> set i5 \<subseteq> {0..<length qubits}
         \<and> sorted (map phase c)"
proof -
  let ?n = "length qubits"
  let ?i0 = "selected (params ! 0) ?n" and ?i1 = "selected (params ! 1) (?n - 1)"
  and ?i2 = "selected (params ! 2) ?n" and ?i3 = "selected (params ! 3) ?n"
  and ?i4 = "selected (params ! 4) ?n" and ?i5 = "selected (params ! 5) ?n"
  let ?c = "map (\<lambda>i. Reset (qubits ! i)) ?i0
             @ map (\<lambda>i. CNOT (qubits ! i) (qubits ! Suc i)) ?i1
             @ map (\<lambda>i. H (qubits ! i)) ?i2
             @ map (\<lambda>i. S (qubits ! i)) ?i3
             @ map (\<lambda>i. T (qubits ! i)) ?i4
             @ map (\<lambda>i. Measure (qubits ! i)) ?i5"
  have "build_circuit qubits params = Inr ?c"
    by (rule build_circuit_matching [OF assms])
  moreover have "sorted (map phase ?c)"
    by (auto simp: sorted_append comp_def sorted_map_const)
  moreover have "set (selected ps n) \<subseteq> {0..<n}" for ps n
    by (auto simp: set_selected)
  ultimately show ?thesis
    using sorted_wrt_selected by blast
qed

text \<open>The hypotheses hold for two qubits and a matrix of six rows of length two.\<close>

theorem build_circuit_phase_order_witness:
  "\<exists>c. build_circuit [LineQubit 0, LineQubit 1] [[1, 0], [1, 1], [0, 1], [0, 0], [1, 0], [1, 1]] = Inr c
      \<and> sorted (map phase c)"
proof -
  have "length [[1, 0], [1, 1], [0, 1], [0, 0], [1, 0], [1, 1::real]] = 6"
    by simp
  moreover have "\<forall>ps\<in>set [[1, 0], [1, 1], [0, 1], [0, 0], [1, 0], [1, 1::real]].
      length ps = length [LineQubit 0, LineQubit 1]"
    by simp
  ultimately show ?thesis
    using build_circuit_phase_order [of "[[1, 0], [1, 1], [0, 1], [0, 0], [1, 0], [1, 1]]"
        "[LineQubit 0, LineQubit 1]"]
    by blast
qed

text \<open>
  The builder has no shape check. For two qubits, a Reset row of length one and a Measure
  row of length three, it returns a circuit: the second qubit is dropped from the Reset
  phase, and the third Measure entry is dropped.
\<close>

theorem build_circuit_mismatch_counterexample:
  "length [1::real] \<noteq> length [LineQubit 0, LineQubit 1]
   \<and> length [1, 1, 1::real] \<noteq> length [LineQubit 0, LineQubit 1]
   \<and> build_circuit [LineQubit 0, LineQubit 1] [[1], [1, 1], [0, 0], [0, 0], [0, 0], [1, 1, 1]]
       = Inr [Reset (LineQubit 0), CNOT (LineQubit 0) (LineQubit 1),
              Measure (LineQubit 0), Measure (LineQubit 1)]"
  by (simp add: build_circuit_def getitem_def threshold_ops_def circuit_append_def
      Circuit_def enumerate_eq_zip)

text \<open>
  Claim C2, as amended. For every qubit sequence of length \<open>N\<close> and every argument of six
  rows, whatever their lengths: the builder raises \<open>IndexError\<close> exactly when the CNOT row
  has fewer than \<open>N - 1\<close> entries. Otherwise it returns a circuit in which each of the
  Reset, H, S, T and Measure phases covers the positions below the minimum of \<open>N\<close> and the
  length of its row (the longer side is cut to the shorter one), and the CNOT phase covers
  the positions below \<open>N - 1\<close>; entries beyond are never read and nothing is padded.
\<close>

theorem build_circuit_mismatch:
  assumes "length params = 6"
  shows "build_circuit qubits params =
          (if length (params ! 1) < length qubits - 1 then Inl IndexError
           else Inr (map (\<lambda>i. Reset (qubits ! i))
                       (selected (params ! 0) (min (length qubits) (length (params ! 0))))
                  @ map (\<lambda>i. CNOT (qubits ! i) (qubits ! Suc i))
                       (selected (params ! 1) (length qubits - 1))
                  @ map (\<lambda>i. H (qubits ! i))
                       (selected (params ! 2) (min (length qubits) (length (params ! 2))))
                  @ map (\<lambda>i. S (qubits ! i))
                       (selected (params ! 3) (min (length qubits) (length (params ! 3))))
                  @ map (\<lambda>i. T (qubits ! i))
                       (selected (params ! 4) (min (length qubits) (length (params ! 4))))
                  @ map (\<lambda>i. Measure (qubits ! i))
                       (selected (params ! 5) (min (length qubits) (length (params ! 5))))))"
  using assms by (simp add: build_circuit_eq threshold_ops_selected not_less)

text \<open>Both branches at rows of mismatching lengths.\<close>

theorem build_circuit_mismatch_witness:
  "build_circuit [LineQubit 0, LineQubit 1, LineQubit 2] [[1], [1], [], [], [], []] = Inl IndexError
   \<and> build_circuit [LineQubit 0, LineQubit 1] [[0, 1, 1], [1], [1], [], [], []]
       = Inr [Reset (LineQubit 1), CNOT (LineQubit 0) (LineQubit 1), H (LineQubit 0)]"
proof -
  have l1: "length [[1], [1], [], [], [], [] :: real list] = 6" by simp
  have l2: "length [[0, 1, 1], [1], [1], [], [], [] :: real list] = 6" by simp
  show ?thesis
    using build_circuit_mismatch [OF l1, of "[LineQubit 0, LineQubit 1, LineQubit 2]"]
      build_circuit_mismatch [OF l2, of "[LineQubit 0, LineQubit 1]"]
    by (simp add: selected_def)
qed

text \<open>
  Claim C4. Every CNOT operation of a circuit the builder returns, for any parameter
  argument, has its control at a position \<open>i\<close> with \<open>i + 1 < N\<close> and its target at position
  \<open>i + 1\<close>; when the qubits are distinct, the last qubit (position \<open>N - 1\<close>) is never a
  control.
\<close>

theorem build_circuit_cnot_neighbours:
  assumes "build_circuit qubits params = Inr c" and "CNOT a b \<in> set c"
  shows "(\<exists>i. Suc i < length qubits \<and> a = qubits ! i \<and> b = qubits ! Suc i)
       \<and> (distinct qubits \<longrightarrow> a \<noteq> qubits ! (length qubits - 1))"
proof -
  from assms(1) have "6 \<le> length params"
    by (rule build_circuit_Inr_length)
  from build_circuit_eq [OF this, of qubits] assms(1)
  have c: "c = threshold_ops Reset qubits (params ! 0)
            @ map (\<lambda>i. CNOT (qubits ! i) (qubits ! Suc i)) (selected (params ! 1) (length qubits - 1))
            @ threshold_ops H qubits (params ! 2)
            @ threshold_ops S qubits (params ! 3)
            @ threshold_ops T qubits (params ! 4)
            @ threshold_ops Measure qubits (params ! 5)"
    by (simp split: if_splits)
  from assms(2) have "CNOT a b \<in> (\<lambda>i. CNOT (qubits ! i) (qubits ! Suc i)) ` set (selected (params ! 1) (length qubits - 1))"
    unfolding c by (auto simp: threshold_ops_selected)
  then obtain i where i: "i < length qubits - 1" "a = qubits ! i" "b = qubits ! Suc i"
    by (auto simp: set_selected)
  then have ex: "\<exists>i. Suc i < length qubits \<and> a = qubits ! i \<and> b = qubits ! Suc i"
    by (intro exI [of _ i]) simp
  have "a \<noteq> qubits ! (length qubits - 1)" if "distinct qubits"
    using that i by (simp add: nth_eq_iff_index_eq)
  with ex show ?thesis by blast
qed

text \<open>Three qubits with both CNOT entries set: the second CNOT has control 1 and target 2.\<close>

theorem build_circuit_cnot_neighbours_witness:
  "(\<exists>i. Suc i < length [LineQubit 0, LineQubit 1, LineQubit 2]
        \<and> LineQubit 1 = [LineQubit 0, LineQubit 1, LineQubit 2] ! i
        \<and> LineQubit 2 = [LineQubit 0, LineQubit 1, LineQubit 2] ! Suc i)
   \<and> LineQubit 1 \<noteq> [LineQubit 0, LineQubit 1, LineQubit 2] ! (length [LineQubit 0, LineQubit 1, LineQubit 2] - 1)"
proof -
  have b: "build_circuit [LineQubit 0, LineQubit 1, LineQubit 2]
             [[0, 0, 0], [1, 1, 1], [0, 0, 0], [0, 0, 0], [0, 0, 0], [0, 0, 0]]
           = Inr [CNOT (LineQubit 0) (LineQubit 1), CNOT (LineQubit 1) (LineQubit 2)]"
    by (simp add: build_circuit_def getitem_def threshold_ops_def circuit_append_def
        Circuit_def enumerate_eq_zip)
  have m: "CNOT (LineQubit 1) (LineQubit 2)
      \<in> set [CNOT (LineQubit 0) (LineQubit 1), CNOT (LineQubit 1) (LineQubit 2)]"
    by simp
  have d: "distinct [LineQubit 0, LineQubit 1, LineQubit 2]"
    by simp
  from build_circuit_cnot_neighbours [OF b m] d show ?thesis
    by blast
qed

text \<open>
  Claim C5. For a matrix of matching shape, every phase \<open>p\<close> and every position \<open>i\<close> that has
  an operation in that phase (all positions, and in the CNOT phase those with a right
  neighbour): the operation of position \<open>i\<close> is in the circuit if and only if the entry
  \<open>matrix[p][i]\<close> is at least 0.5. The operations of phase \<open>p\<close> in the circuit are exactly
  those of the positions that pass the test, in ascending order; for distinct qubits this
  is membership of the operation in the circuit.
\<close>

theorem build_circuit_threshold:
  assumes "length params = 6" and "\<forall>ps\<in>set params. length ps = length qubits" and "p < 6"
  shows "\<exists>c. build_circuit qubits params = Inr c
          \<and> filter (\<lambda>op. phase op = p) c
              = map (phase_op p qubits)
                  (filter (\<lambda>i. params ! p ! i \<ge> 0.5) [0..<eligible p (length qubits)])
          \<and> (distinct qubits \<longrightarrow>
               (\<forall>i<eligible p (length qubits).
                  phase_op p qubits i \<in> set c \<longleftrightarrow> params ! p ! i \<ge> 0.5))"
proof -
  let ?n = "length qubits"
  let ?c = "map (\<lambda>i. Reset (qubits ! i)) (selected (params ! 0) ?n)
              @ map (\<lambda>i. CNOT (qubits ! i) (qubits ! Suc i)) (selected (params ! 1) (?n - 1))
              @ map (\<lambda>i. H (qubits ! i)) (selected (params ! 2) ?n)
              @ map (\<lambda>i. S (qubits ! i)) (selected (params ! 3) ?n)
              @ map (\<lambda>i. T (qubits ! i)) (selected (params ! 4) ?n)
              @ map (\<lambda>i. Measure (qubits ! i)) (selected (params ! 5) ?n)"
  have c: "build_circuit qubits params = Inr ?c"
    by (rule build_circuit_matching [OF assms(1,2)])
  from assms(3) have p: "p = 0 \<or> p = 1 \<or> p = 2 \<or> p = 3 \<or> p = 4 \<or> p = 5"
    by arith
  have f: "filter (\<lambda>op. phase op = p) ?c
      = map (phase_op p qubits) (filter (\<lambda>i. params ! p ! i \<ge> 0.5) [0..<eligible p ?n])"
    using p by (elim disjE) (simp_all add: filter_map comp_def phase_op_def eligible_def selected_def)
  have m: "phase_op p qubits i \<in> set ?c \<longleftrightarrow> params ! p ! i \<ge> 0.5"
    if "distinct qubits" and "i < eligible p ?n" for i
    using p that
    by (elim disjE) (auto simp: phase_op_def eligible_def set_selected nth_eq_iff_index_eq)
  from c f m show ?thesis by blast
qed

text \<open>An entry of exactly 0.5 is included, an entry of 0.499 is not.\<close>

theorem build_circuit_threshold_witness:
  "\<exists>c. build_circuit [LineQubit 0, LineQubit 1]
          [[0.5, 0.499], [1, 1], [0, 0], [0, 0], [0, 0], [0, 0]] = Inr c
      \<and> Reset (LineQubit 0) \<in> set c \<and> Reset (LineQubit 1) \<notin> set c"
proof -
  let ?Q = "[LineQubit 0, LineQubit 1]"
  let ?P = "[[0.5, 0.499], [1, 1], [0, 0], [0, 0], [0, 0], [0, 0 :: real]]"
  have "length ?P = 6" and "\<forall>ps\<in>set ?P. length ps = length ?Q" and "(0::nat) < 6"
    by simp_all
  from build_circuit_threshold [OF this]
  obtain c where c: "build_circuit ?Q ?P = Inr c"
    and m: "distinct ?Q \<longrightarrow> (\<forall>i<eligible 0 (length ?Q).
                  phase_op 0 ?Q i \<in> set c \<longleftrightarrow> ?P ! 0 ! i \<ge> 0.5)"
    by blast
  have "distinct ?Q" by simp
  with m have "phase_op 0 ?Q i \<in> set c \<longleftrightarrow> ?P ! 0 ! i \<ge> 0.5" if "i < 2" for i
    using that by (simp add: eligible_def)
  from this [of 0] this [of 1] have "Reset (LineQubit 0) \<in> set c \<and> Reset (LineQubit 1) \<notin> set c"
    by (simp add: phase_op_def)
  with c show ?thesis by blast
qed

text \<open>
  Claim C6. For a matrix of matching shape: if every entry is 1 and there is at least one
  qubit, the circuit is Reset on every qubit, then CNOT on every adjacent pair, then H, S,
  T and Measure on every qubit, each in ascending order, \<open>6N - 1\<close> operations in all; if
  every entry is 0, the circuit is empty.
\<close>

theorem build_circuit_all_ones_all_zeros:
  assumes "length params = 6"
  shows "((\<forall>ps\<in>set params. length ps = length qubits \<and> (\<forall>x\<in>set ps. x = 1)) \<and> 1 \<le> length qubits
            \<longrightarrow> (\<exists>c. build_circuit qubits params = Inr c
                 \<and> c = map Reset qubits
                     @ map (\<lambda>i. CNOT (qubits ! i) (qubits ! Suc i)) [0..<length qubits - 1]
                     @ map H qubits @ map S qubits @ map T qubits @ map Measure qubits
                 \<and> length c = 6 * length qubits - 1))
       \<and> ((\<forall>ps\<in>set params. length ps = length qubits \<and> (\<forall>x\<in>set ps. x = 0))
            \<longrightarrow> build_circuit qubits params = Inr [])"
proof (intro conjI impI)
  assume a: "(\<forall>ps\<in>set params. length ps = length qubits \<and> (\<forall>x\<in>set ps. x = 1)) \<and> 1 \<le> length qubits"
  then have shape: "\<forall>ps\<in>set params. length ps = length qubits"
    by blast
  have one: "params ! k ! i = 1" if "k < 6" "i < length qubits" for k i
    using a assms that by (metis nth_mem)
  have sel: "selected (params ! k) n = [0..<n]" if "k < 6" "n \<le> length qubits" for k n
    unfolding selected_def using one [OF that(1)] that(2) by (auto simp: filter_id_conv)
  have nth: "map (\<lambda>i. g (qubits ! i)) [0..<length qubits] = map g qubits" for g :: "qubit \<Rightarrow> operation"
    by (rule nth_equalityI) simp_all
  have "build_circuit qubits params = Inr (map Reset qubits
                     @ map (\<lambda>i. CNOT (qubits ! i) (qubits ! Suc i)) [0..<length qubits - 1]
                     @ map H qubits @ map S qubits @ map T qubits @ map Measure qubits)"
    by (simp add: build_circuit_matching [OF assms shape] sel nth)
  moreover have "length (map Reset qubits
                     @ map (\<lambda>i. CNOT (qubits ! i) (qubits ! Suc i)) [0..<length qubits - 1]
                     @ map H qubits @ map S qubits @ map T qubits @ map Measure qubits)
                 = 6 * length qubits - 1"
    using a by simp
  ultimately show "\<exists>c. build_circuit qubits params = Inr c
                 \<and> c = map Reset qubits
                     @ map (\<lambda>i. CNOT (qubits ! i) (qubits ! Suc i)) [0..<length qubits - 1]
                     @ map H qubits @ map S qubits @ map T qubits @ map Measure qubits
                 \<and> length c = 6 * length qubits - 1"
    by blast
next
  assume a: "\<forall>ps\<in>set params. length ps = length qubits \<and> (\<forall>x\<in>set ps. x = 0)"
  then have shape: "\<forall>ps\<in>set params. length ps = length qubits"
    by blast
  have zero: "params ! k ! i = 0" if "k < 6" "i < length qubits" for k i
    using a assms that by (metis nth_mem)
  have sel: "selected (params ! k) n = []" if "k < 6" "n \<le> length qubits" for k n
    unfolding selected_def using zero [OF that(1)] that(2) by (auto simp: filter_empty_conv)
  show "build_circuit qubits params = Inr []"
    by (simp add: build_circuit_matching [OF assms shape] sel)
qed

text \<open>Two qubits: eleven operations for the matrix of ones, none for the matrix of zeros.\<close>

theorem build_circuit_all_ones_all_zeros_witness:
  "build_circuit [LineQubit 0, LineQubit 1] (replicate 6 (replicate 2 1))
     = Inr [Reset (LineQubit 0), Reset (LineQubit 1), CNOT (LineQubit 0) (LineQubit 1),
            H (LineQubit 0), H (LineQubit 1), S (LineQubit 0), S (LineQubit 1),
            T (LineQubit 0), T (LineQubit 1), Measure (LineQubit 0), Measure (LineQubit 1)]
   \<and> build_circuit [LineQubit 0, LineQubit 1] (replicate 6 (replicate 2 0)) = Inr []"
proof -
  let ?Q = "[LineQubit 0, LineQubit 1]"
  have l: "length (replicate 6 (replicate 2 x)) = 6" for x :: real
    by simp
  have "(\<forall>ps\<in>set (replicate 6 (replicate 2 (1::real))). length ps = length ?Q \<and> (\<forall>x\<in>set ps. x = 1))
      \<and> 1 \<le> length ?Q"
    by simp
  with build_circuit_all_ones_all_zeros [OF l, of 1 ?Q]
  have "\<exists>c. build_circuit ?Q (replicate 6 (replicate 2 1)) = Inr c
                 \<and> c = map Reset ?Q
                     @ map (\<lambda>i. CNOT (?Q ! i) (?Q ! Suc i)) [0..<length ?Q - 1]
                     @ map H ?Q @ map S ?Q @ map T ?Q @ map Measure ?Q
                 \<and> length c = 6 * length ?Q - 1"
    by blast
  then have one: "build_circuit ?Q (replicate 6 (replicate 2 1))
     = Inr [Reset (LineQubit 0), Reset (LineQubit 1), CNOT (LineQubit 0) (LineQubit 1),
            H (LineQubit 0), H (LineQubit 1), S (LineQubit 0), S (LineQubit 1),
            T (LineQubit 0), T (LineQubit 1), Measure (LineQubit 0), Measure (LineQubit 1)]"
    by auto
  have "\<forall>ps\<in>set (replicate 6 (replicate 2 (0::real))). length ps = length ?Q \<and> (\<forall>x\<in>set ps. x = 0)"
    by simp
  with build_circuit_all_ones_all_zeros [OF l, of 0 ?Q]
  have "build_circuit ?Q (replicate 6 (replicate 2 0)) = Inr []"
    by blast
  with one show ?thesis by blast
qed

text \<open>
  Claim C9. For two qubits and the parameter matrix
  \<open>[[1,0],[1,x],[0,0],[0,0],[0,0],[1,1]]\<close>, whatever the second entry \<open>x\<close> of the CNOT
  row is, the builder returns exactly the operations
  \<open>Reset(0), CNOT(0,1), Measure(0), Measure(1)\<close>.
\<close>

theorem build_circuit_example_two_qubits:
  "build_circuit [LineQubit 0, LineQubit 1] [[1, 0], [1, x], [0, 0], [0, 0], [0, 0], [1, 1]]
     = Inr [Reset (LineQubit 0), CNOT (LineQubit 0) (LineQubit 1),
            Measure (LineQubit 0), Measure (LineQubit 1)]"
  by (simp add: build_circuit_def getitem_def threshold_ops_def circuit_append_def
      Circuit_def enumerate_eq_zip)

section \<open>Properties of the sampler\<close>

lemma random_list_draws:
  "random_list xs g = (map g [0..<length xs], \<lambda>k. g (k + length xs))"
proof (induction xs arbitrary: g)
  case Nil
  then show ?case by simp
next
  case (Cons x xs)
  have "map g [0..<Suc (length xs)] = g 0 # map (\<lambda>k. g (Suc k)) [0..<length xs]"
    by (simp add: upt_conv_Cons map_Suc_upt [symmetric] del: upt_Suc)
  then show ?case
    by (simp add: Cons.IH random_random_def)
qed

lemma length_py_range: "length (py_range n) = nat n"
  by (simp add: py_range_def)

lemma map_shift: "map (\<lambda>k. g (k + m)) [0..<n] = map g [m..<m + n]"
  by (rule nth_equalityI) (simp_all add: add.commute)

lemma random_list_shift:
  "random_list xs (\<lambda>k. g (k + m)) = (map g [m..<m + length xs], \<lambda>k. g (k + (m + length xs)))"
proof -
  have "random_list xs (\<lambda>k. g (k + m))
      = (map (\<lambda>k. g (k + m)) [0..<length xs], \<lambda>k. g (k + length xs + m))"
    by (rule random_list_draws)
  then show ?thesis
    by (simp only: map_shift add.assoc add.commute [of "length xs" m])
qed

lemma random_params_draws:
  "random_params n g =
     ([map g [0..<nat n], map g [nat n..<2 * nat n], map g [2 * nat n..<3 * nat n],
       map g [3 * nat n..<4 * nat n], map g [4 * nat n..<5 * nat n],
       map g [5 * nat n..<6 * nat n]],
      \<lambda>k. g (k + 6 * nat n))"
proof -
  let ?N = "nat n"
  have step: "random_list (py_range n) (\<lambda>k. g (k + m)) = (map g [m..<m + ?N], \<lambda>k. g (k + (m + ?N)))"
    for m
    by (simp only: random_list_shift length_py_range)
  have first: "random_list (py_range n) g = (map g [0..<?N], \<lambda>k. g (k + ?N))"
    by (simp only: random_list_draws length_py_range)
  have arith: "?N + ?N = 2 * ?N" "2 * ?N + ?N = 3 * ?N" "3 * ?N + ?N = 4 * ?N"
    "4 * ?N + ?N = 5 * ?N" "5 * ?N + ?N = 6 * ?N"
    by simp_all
  show ?thesis
    unfolding random_params_def
    by (simp only: first step prod.case Let_def arith)
qed

text \<open>
  Claim C7. For every qubit count \<open>n\<close> and every random source whose values lie in the
  half-open interval from 0 to 1, the sampler returns exactly six rows, each of length
  \<open>n\<close> (none for a count that is not positive), each entry in that interval. The rows are
  in the order in which they are drawn, reset_state, apply_CNOT, apply_H, apply_S, apply_T,
  do_measurement: row \<open>j\<close> holds the draws \<open>j * n\<close> up to \<open>(j + 1) * n\<close> of the source. For
  \<open>n = 0\<close> the six rows are empty.
\<close>

theorem random_params_shape:
  assumes "\<forall>k. 0 \<le> g k \<and> g k < 1"
  shows "length (fst (random_params n g)) = 6
       \<and> (\<forall>ps\<in>set (fst (random_params n g)). length ps = nat n \<and> (\<forall>x\<in>set ps. 0 \<le> x \<and> x < 1))
       \<and> (\<forall>j<6. fst (random_params n g) ! j = map g [j * nat n..<(j + 1) * nat n])
       \<and> (n = 0 \<longrightarrow> fst (random_params n g) = [[], [], [], [], [], []])"
proof -
  have rows: "fst (random_params n g) ! j = map g [j * nat n..<(j + 1) * nat n]" if "j < 6" for j
  proof -
    from that have "j = 0 \<or> j = 1 \<or> j = 2 \<or> j = 3 \<or> j = 4 \<or> j = 5"
      by arith
    then show ?thesis
      by (elim disjE) (simp_all add: random_params_draws mult_2)
  qed
  have "length ps = nat n \<and> (\<forall>x\<in>set ps. 0 \<le> x \<and> x < 1)"
    if "ps \<in> set (fst (random_params n g))" for ps
    using that assms by (auto simp: random_params_draws)
  moreover have "length (fst (random_params n g)) = 6"
    by (simp add: random_params_draws)
  moreover have "n = 0 \<longrightarrow> fst (random_params n g) = [[], [], [], [], [], []]"
    by (simp add: random_params_draws)
  ultimately show ?thesis
    using rows by blast
qed

text \<open>A source with values \<open>1/2, 1/3, 1/4, \<dots>\<close>: the CNOT row for two qubits is \<open>[1/4, 1/5]\<close>.\<close>

theorem random_params_shape_witness:
  "length (fst (random_params 2 (\<lambda>k. 1 / (real k + 2)))) = 6
   \<and> fst (random_params 2 (\<lambda>k. 1 / (real k + 2))) ! 1 = [1 / 4, 1 / 5]
   \<and> fst (random_params 0 (\<lambda>k. 1 / (real k + 2))) = [[], [], [], [], [], []]"
proof -
  have g: "\<forall>k. 0 \<le> 1 / (real k + 2) \<and> 1 / (real k + 2) < 1"
    by simp
  have u: "[Suc (Suc 0)..<4] = [2, 3]"
    by (simp add: upt_rec)
  from random_params_shape [OF g, of 2] random_params_shape [OF g, of 0] show ?thesis
    by (simp add: u)
qed

section \<open>Properties of the driver\<close>

text \<open>A sampled matrix has the shape the builder expects, so the builder returns a circuit.\<close>

lemma random_params_builds:
  "\<exists>c. build_circuit (map LineQubit (py_range n)) (fst (random_params n g)) = Inr c"
proof -
  have "length (fst (random_params n g)) = 6"
    by (simp add: random_params_draws)
  moreover have "\<forall>ps\<in>set (fst (random_params n g)). length ps = length (map LineQubit (py_range n))"
    by (auto simp: random_params_draws length_py_range)
  ultimately show ?thesis
    by (simp add: build_circuit_matching)
qed

text \<open>
  Claim C3 asks for exactly \<open>nsteps\<close> iterations for every timestep count \<open>nsteps\<close> passed to
  the driver. The driver does not do that: its loop runs over \<^verbatim>\<open>range(NSTEPS)\<close> with the
  module constant \<open>NSTEPS = 1\<close>, so for every value of \<open>nsteps\<close>, such as 3 or 0, and every
  simulator a run samples exactly once and calls the simulator exactly once.
\<close>

theorem main_runs_NSTEPS_iterations:
  "iterations (main simulate simulator nsteps nqubits g) = 1
   \<and> simulations (main simulate simulator nsteps nqubits g) = 1"
proof -
  obtain c where c: "build_circuit (map LineQubit (py_range nqubits)) (fst (random_params nqubits g)) = Inr c"
    using random_params_builds by blast
  have r: "py_range NSTEPS = [0]"
    by (simp add: py_range_def NSTEPS_def)
  show ?thesis
    by (cases "random_params nqubits g")
       (use c in \<open>auto simp: main_def Let_def r iterations_def simulations_def
          split: prod.splits sum.splits\<close>)
qed

section \<open>Properties of the builder on a store\<close>

lemma take_append_st: "n \<le> c \<Longrightarrow> take n (append_st c ops s) = take n s"
  by (simp add: append_st_def split: sum.splits)

lemma length_append_st: "length (append_st c ops s) = length s"
  by (simp add: append_st_def split: sum.splits)

lemma take_phase_st: "n \<le> c \<Longrightarrow> take n (snd (phase_st gate qubits params k c s)) = take n s"
  by (simp add: phase_st_def take_append_st split: sum.splits)

lemma take_cnot_loop_st:
  "n \<le> c \<Longrightarrow> take n (snd (cnot_loop_st qubits params es c s)) = take n s"
  by (induction qubits params es c s rule: cnot_loop_st.induct)
     (simp_all add: take_append_st split: sum.splits)

lemma phase_st_frame:
  "phase_st gate qubits params k c s = (r, s') \<Longrightarrow> n \<le> c \<Longrightarrow> take n s' = take n s"
  using take_phase_st [of n c gate qubits params k s] by simp

lemma cnot_loop_st_frame:
  "cnot_loop_st qubits params es c s = (r, s') \<Longrightarrow> n \<le> c \<Longrightarrow> take n s' = take n s"
  using take_cnot_loop_st [of n c qubits params es s] by simp

lemma build_circuit_st_prefix:
  "take (length s) (snd (build_circuit_st qubits params s)) = s"
  unfolding build_circuit_st_def new_circuit_def
  by (auto split: prod.splits option.splits sum.splits
      dest!: phase_st_frame [where n = "length s"] cnot_loop_st_frame [where n = "length s"])

lemma read_args_qubits:
  assumes "read_args s qubits params = Some (qs, ps)"
  shows "load_qubits (s @ [Circuit_obj xs]) qubits = Inr qs"
  using assms
  by (auto simp: read_args_def load_qubits_def nth_append split: sum.splits if_splits pyobj.splits)

lemma read_args_row:
  assumes "read_args s qubits params = Some (qs, ps)"
  shows "params_row (s @ [Circuit_obj xs]) params k = lift_error (getitem ps k)"
proof -
  from assms obtain rows where rows: "load_refs s params = Inr rows"
    and fl: "list_all (\<lambda>a. \<not> isl (load_floats s a)) rows"
    and ps: "ps = map (\<lambda>a. projr (load_floats s a)) rows"
    by (auto simp: read_args_def split: sum.splits if_splits)
  from rows have r: "load_refs (s @ [Circuit_obj xs]) params = Inr rows"
    by (auto simp: load_refs_def nth_append split: if_splits pyobj.splits)
  have f: "load_floats (s @ [Circuit_obj xs]) a = Inr (projr (load_floats s a))"
    if "a \<in> set rows" for a
  proof -
    from fl that have "\<not> isl (load_floats s a)"
      by (simp add: list_all_iff)
    then show ?thesis
      by (auto simp: load_floats_def nth_append split: if_splits pyobj.splits)
  qed
  show ?thesis
    by (simp add: params_row_def r getitem_st_def getitem_def lift_error_def ps f)
qed

lemma append_st_fresh:
  "append_st (length s) ops (s @ [Circuit_obj xs]) = s @ [Circuit_obj (xs @ ops)]"
  by (simp add: append_st_def load_circuit_def circuit_append_def)

lemma phase_st_refines:
  assumes "read_args s qubits params = Some (qs, ps)"
  shows "phase_st gate qubits params k (length s) (s @ [Circuit_obj xs]) =
          (case getitem ps k of
             Inl e \<Rightarrow> (Some (Raised e), s @ [Circuit_obj xs])
           | Inr row \<Rightarrow> (None, s @ [Circuit_obj (xs @ threshold_ops gate qs row)]))"
  by (simp add: phase_st_def read_args_row [OF assms] read_args_qubits [OF assms]
      append_st_fresh lift_error_def split: sum.splits)

lemma cnot_loop_st_refines:
  assumes "read_args s qubits params = Some (qs, ps)"
  shows "\<exists>ys. cnot_loop_st qubits params es (length s) (s @ [Circuit_obj xs]) =
          (case cnot_loop qs ps es xs of
             Inl e \<Rightarrow> (Some (Raised e), s @ [Circuit_obj ys])
           | Inr xs' \<Rightarrow> (None, s @ [Circuit_obj xs']))"
proof (induction es arbitrary: xs)
  case Nil
  then show ?case by simp
next
  case (Cons e es)
  obtain qi q where e: "e = (qi, q)" by (cases e)
  show ?case
    using Cons.IH [of "xs @ [CNOT q q']" for q'] Cons.IH [of xs]
    by (auto simp: e read_args_row [OF assms] read_args_qubits [OF assms] append_st_fresh
        lift_error_def getitem_st_def circuit_append_def split: sum.splits)
qed

lemma load_circuit_fresh: "load_circuit (s @ [Circuit_obj xs]) (length s) = Inr xs"
  by (simp add: load_circuit_def)

lemma build_circuit_st_refines:
  assumes "read_args s qubits params = Some (qs, ps)"
  shows "outcome (build_circuit_st qubits params s) = lift_error (build_circuit qs ps)"
proof (cases "getitem ps 0")
  case (Inl e)
  then show ?thesis
    by (simp add: build_circuit_st_def new_circuit_def phase_st_refines [OF assms] outcome_def
        build_circuit_def lift_error_def)
next
  case (Inr row0)
  let ?xs = "threshold_ops Reset qs row0"
  obtain ys where loop:
    "cnot_loop_st qubits params (enumerate 0 (butlast qs)) (length s) (s @ [Circuit_obj ?xs]) =
          (case cnot_loop qs ps (enumerate 0 (butlast qs)) ?xs of
             Inl e \<Rightarrow> (Some (Raised e), s @ [Circuit_obj ys])
           | Inr xs' \<Rightarrow> (None, s @ [Circuit_obj xs']))"
    using cnot_loop_st_refines [OF assms] by blast
  show ?thesis
    by (cases "cnot_loop qs ps (enumerate 0 (butlast qs)) ?xs")
       (simp_all add: build_circuit_st_def new_circuit_def phase_st_refines [OF assms] outcome_def
          build_circuit_def lift_error_def Inr Circuit_def circuit_append_def loop
          read_args_qubits [OF assms] load_circuit_fresh split: sum.splits)
qed

lemma read_args_extend:
  assumes "read_args s qubits params = Some (qs, ps)"
  shows "read_args (s @ u) qubits params = Some (qs, ps)"
proof -
  from assms have q: "load_qubits s qubits = Inr qs"
    by (auto simp: read_args_def split: sum.splits if_splits)
  from assms obtain rows where rows: "load_refs s params = Inr rows"
    and fl: "list_all (\<lambda>a. \<not> isl (load_floats s a)) rows"
    and ps: "ps = map (\<lambda>a. projr (load_floats s a)) rows"
    by (auto simp: read_args_def split: sum.splits if_splits)
  from q have q': "load_qubits (s @ u) qubits = Inr qs"
    by (auto simp: load_qubits_def nth_append split: if_splits pyobj.splits)
  from rows have r': "load_refs (s @ u) params = Inr rows"
    by (auto simp: load_refs_def nth_append split: if_splits pyobj.splits)
  have f: "load_floats (s @ u) a = load_floats s a" if "a \<in> set rows" for a
  proof -
    from fl that have "\<not> isl (load_floats s a)"
      by (simp add: list_all_iff)
    then show ?thesis
      by (auto simp: load_floats_def nth_append split: if_splits pyobj.splits)
  qed
  from fl have "list_all (\<lambda>a. \<not> isl (load_floats (s @ u) a)) rows"
    by (simp add: list_all_iff f)
  moreover have "map (\<lambda>a. projr (load_floats (s @ u) a)) rows = ps"
    unfolding ps by (rule map_cong) (simp_all add: f)
  ultimately show ?thesis
    by (simp add: read_args_def q' r')
qed

text \<open>
  Claim C10. The builder does not change its arguments. For every store and every pair of
  addresses, the store after the call, whether it returned or raised, agrees with the
  store before the call on every object that existed before: only the new circuit object
  is added. In particular the qubit list and the parameter rows read from the argument
  addresses have the same values after the call as before.
\<close>

theorem build_circuit_st_frame:
  "take (length s) (snd (build_circuit_st qubits params s)) = s
   \<and> (read_args s qubits params = Some (qs, ps)
        \<longrightarrow> read_args (snd (build_circuit_st qubits params s)) qubits params = Some (qs, ps))"
proof (intro conjI impI)
  let ?t = "snd (build_circuit_st qubits params s)"
  show frame: "take (length s) ?t = s"
    by (rule build_circuit_st_prefix)
  assume args: "read_args s qubits params = Some (qs, ps)"
  have "?t = take (length s) ?t @ drop (length s) ?t"
    by simp
  then have "?t = s @ drop (length s) ?t"
    by (simp only: frame)
  then show "read_args ?t qubits params = Some (qs, ps)"
    using read_args_extend [OF args, of "drop (length s) ?t"] by simp
qed

text \<open>A store of six objects: after the call they are unchanged and the arguments read the same.\<close>

theorem build_circuit_st_frame_witness:
  "take 6 (snd (build_circuit_st 0 1
      [Qubit_list [LineQubit 0, LineQubit 1], Ref_list [2, 3, 4, 4, 4, 5],
       Float_list [1, 0], Float_list [1, 1], Float_list [0, 0], Float_list [1, 1]]))
   = [Qubit_list [LineQubit 0, LineQubit 1], Ref_list [2, 3, 4, 4, 4, 5],
       Float_list [1, 0], Float_list [1, 1], Float_list [0, 0], Float_list [1, 1]]
   \<and> read_args (snd (build_circuit_st 0 1
      [Qubit_list [LineQubit 0, LineQubit 1], Ref_list [2, 3, 4, 4, 4, 5],
       Float_list [1, 0], Float_list [1, 1], Float_list [0, 0], Float_list [1, 1]])) 0 1
     = Some ([LineQubit 0, LineQubit 1], [[1, 0], [1, 1], [0, 0], [0, 0], [0, 0], [1, 1]])"
proof -
  let ?s = "[Qubit_list [LineQubit 0, LineQubit 1], Ref_list [2, 3, 4, 4, 4, 5],
       Float_list [1, 0], Float_list [1, 1], Float_list [0, 0], Float_list [1, 1]]"
  let ?v = "([LineQubit 0, LineQubit 1], [[1, 0], [1, 1], [0, 0], [0, 0], [0, 0], [1, 1 :: real]])"
  have len: "length ?s = 6"
    by simp
  have "read_args ?s 0 1 = Some ?v"
    by (simp add: read_args_def load_qubits_def load_refs_def load_floats_def)
  with build_circuit_st_frame [of ?s 0 1 "fst ?v" "snd ?v"]
  have "take (length ?s) (snd (build_circuit_st 0 1 ?s)) = ?s
      \<and> read_args (snd (build_circuit_st 0 1 ?s)) 0 1 = Some ?v"
    by simp
  then show ?thesis
    unfolding len .
qed

text \<open>
  Claim C8. The builder is deterministic. Two calls whose arguments hold the same qubit
  sequence and the same parameter matrix have the same outcome, the same exception or
  circuits with identical content, in whatever stores and at whatever addresses the
  arguments live: the outcome is that of the list model, a function of the two values
  alone.
\<close>

theorem build_circuit_deterministic:
  assumes "read_args s qubits params = Some (qs, ps)"
    and "read_args s' qubits' params' = Some (qs, ps)"
  shows "outcome (build_circuit_st qubits params s) = outcome (build_circuit_st qubits' params' s')
       \<and> outcome (build_circuit_st qubits params s) = lift_error (build_circuit qs ps)"
  by (simp only: build_circuit_st_refines [OF assms(1)] build_circuit_st_refines [OF assms(2)])

text \<open>
  The same arguments at different addresses of two different stores, one of which also
  holds an unrelated circuit.
\<close>

theorem build_circuit_deterministic_witness:
  "outcome (build_circuit_st 0 1
      [Qubit_list [LineQubit 0, LineQubit 1], Ref_list [2, 3, 4, 4, 4, 5],
       Float_list [1, 0], Float_list [1, 1], Float_list [0, 0], Float_list [1, 1]])
   = outcome (build_circuit_st 5 4
      [Float_list [0, 0], Float_list [1, 1], Circuit_obj [H (LineQubit 7)], Float_list [1, 0],
       Ref_list [3, 1, 0, 0, 0, 1], Qubit_list [LineQubit 0, LineQubit 1]])"
proof -
  let ?v = "([LineQubit 0, LineQubit 1], [[1, 0], [1, 1], [0, 0], [0, 0], [0, 0], [1, 1 :: real]])"
  have a: "read_args [Qubit_list [LineQubit 0, LineQubit 1], Ref_list [2, 3, 4, 4, 4, 5],
       Float_list [1, 0], Float_list [1, 1], Float_list [0, 0], Float_list [1, 1]] 0 1 = Some ?v"
    by (simp add: read_args_def load_qubits_def load_refs_def load_floats_def)
  have b: "read_args [Float_list [0, 0], Float_list [1, 1], Circuit_obj [H (LineQubit 7)],
       Float_list [1, 0], Ref_list [3, 1, 0, 0, 0, 1], Qubit_list [LineQubit 0, LineQubit 1]] 5 4
      = Some ?v"
    by (simp add: read_args_def load_qubits_def load_refs_def load_floats_def)
  from build_circuit_deterministic [OF a b] show ?thesis
    by (rule conjunct1)
qed

end
